theory Spec2Isabelle
  imports Main "HOL-Library.Word"
begin

section \<open>Torsion-mesh conformer generation (ipython/well\_conf\_rdkit.ipynb)\<close>

text \<open>
  The notebook defines three functions: \<^verbatim>\<open>get_separable_angle_list\<close> turns a sampling
  description per torsion into a list of angles, \<^verbatim>\<open>get_angle_mesh\<close> forms the Cartesian
  product of those lists, and \<^verbatim>\<open>conformers_by_change_torsions\<close> walks the mesh, sets the
  torsions of a conformer and records the geometry in a dictionary.

  The first function adds each original angle to a numpy array, so its angles are the
  elements of an \<^verbatim>\<open>int64\<close> or a \<^verbatim>\<open>float64\<close> array: sums of 64-bit integers wrap around
  and sums of floats are rounded. Both are modelled. A sampling entry is either a number
  (a step count) or a list (explicit offsets), the two shapes the function's docstring
  describes; a float step count and an entry that is neither a number nor a list are
  outside the input type.
\<close>

subsection \<open>Python values\<close>

datatype py_error = IndexError | OverflowError

text \<open>\<^verbatim>\<open>xs[i]\<close> for an index \<open>i \<ge> 0\<close>: raises \<^verbatim>\<open>IndexError\<close> past the end.\<close>

definition py_getitem :: "'a list \<Rightarrow> nat \<Rightarrow> py_error + 'a" where
  "py_getitem xs i = (if i < length xs then Inr (xs ! i) else Inl IndexError)"

text \<open>\<^verbatim>\<open>range(n)\<close>: the integers \<open>0, \<dots>, n - 1\<close>, none when \<open>n \<le> 0\<close>.\<close>

definition py_range :: "int \<Rightarrow> int list" where
  "py_range n = map int [0..<nat n]"

subsection \<open>Numbers and numpy arrays\<close>

text \<open>
  An angle is a Python \<^verbatim>\<open>int\<close> or a Python \<^verbatim>\<open>float\<close>.

  \<^item> \<open>PyInt w\<close> is the Python integer \<open>sint w\<close>, an integer from \<open>- 2\<^sup>6\<^sup>3\<close> to
    \<open>2\<^sup>6\<^sup>3 - 1\<close>: what an \<^verbatim>\<open>int64\<close> array holds. A Python integer outside that range
    is not in the input type of the functions below: what numpy does when such a number
    is added to an array depends on its version (\<open>zero_step_any_int\<close> below models
    line 75 for such a number).
  \<^item> \<open>PyFloat m\<close> is the finite \<^verbatim>\<open>float64\<close> of value \<open>m * 2\<^sup>-\<^sup>1\<^sup>0\<^sup>7\<^sup>4\<close>. Every finite
    \<^verbatim>\<open>float64\<close>, subnormal ones included, is a multiple of \<open>2\<^sup>-\<^sup>1\<^sup>0\<^sup>7\<^sup>4\<close>, the smallest
    positive one, so every finite float is some \<open>PyFloat m\<close>; the two zeros are not told
    apart. Infinities and NaN are not in the input type. Not every \<open>m\<close> is a float:
    \<open>is_float64\<close> below says which are.

  \<open>float_units v\<close> is the integer \<open>v\<close> in units of \<open>2\<^sup>-\<^sup>1\<^sup>0\<^sup>7\<^sup>4\<close>, and \<open>num_val\<close> is the value
  of a number in those units, so that values of both kinds are compared and subtracted
  as integers.
\<close>

datatype py_num = PyInt "64 word" | PyFloat int

definition float_units :: "int \<Rightarrow> int" where
  "float_units v = v * 2 ^ 1074"

fun num_val :: "py_num \<Rightarrow> int" where
  "num_val (PyInt w) = float_units (sint w)"
| "num_val (PyFloat m) = m"

text \<open>
  Rounding to the nearest \<^verbatim>\<open>float64\<close>, ties to the even significand (IEEE 754), of a
  number given in units of \<open>2\<^sup>-\<^sup>1\<^sup>0\<^sup>7\<^sup>4\<close>: the rounding of every float addition and of the
  conversion of an \<^verbatim>\<open>int64\<close> to \<^verbatim>\<open>float64\<close>. A \<^verbatim>\<open>float64\<close> has a significand of 53
  bits: \<open>float_exp a\<close> is the number of low bits of \<open>a\<close> that do not fit, and the number
  is rounded to a multiple of \<open>2 ^ float_exp a\<close>. Below \<open>2\<^sup>5\<^sup>3\<close> units, the range of the
  subnormal floats and the first binade, every multiple of the unit is a float. A result
  of \<open>2\<^sup>2\<^sup>0\<^sup>9\<^sup>8\<close> units or more would be an infinity; no sum of a float and a 64-bit
  integer reaches it.
\<close>

function float_exp :: "int \<Rightarrow> nat" where
  "float_exp a = (if a < 2 ^ 53 then 0 else Suc (float_exp (a div 2)))"
  by pat_completeness auto
termination
  by (relation "measure nat") auto

declare float_exp.simps [simp del]

definition round_float64 :: "int \<Rightarrow> int" where
  "round_float64 x =
     (let a = \<bar>x\<bar>; e = float_exp a
      in if e = 0 then x
         else
           (let q = a div 2 ^ e; r = a mod 2 ^ e; h = 2 ^ (e - 1);
                q' = (if h < r \<or> (r = h \<and> odd q) then q + 1 else q)
            in sgn x * (q' * 2 ^ e)))"



text \<open>
  \<^verbatim>\<open>np.array(xs)\<close> for a list of Python integers that fit 64 bits: an \<^verbatim>\<open>int64\<close> array
  (the default integer of numpy, on the platforms where it has 64 bits), and for the
  empty list an empty \<^verbatim>\<open>float64\<close> array.
\<close>

datatype ndarray = Int64Array "64 word list" | Float64Array "int list"

text \<open>The elements of a \<^verbatim>\<open>float64\<close> array are in units of \<open>2\<^sup>-\<^sup>1\<^sup>0\<^sup>7\<^sup>4\<close>, as in \<open>PyFloat\<close>.\<close>

definition np_array :: "64 word list \<Rightarrow> ndarray" where
  "np_array xs = (if xs = [] then Float64Array [] else Int64Array xs)"

text \<open>
  \<^verbatim>\<open>r + array\<close> for a Python number \<open>r\<close>. A Python \<^verbatim>\<open>int\<close> and an \<^verbatim>\<open>int64\<close> array are
  added in \<^verbatim>\<open>int64\<close>, where the sum wraps around without any exception. When the number
  is a \<^verbatim>\<open>float\<close> or the array is \<^verbatim>\<open>float64\<close> the result is \<^verbatim>\<open>float64\<close>: the integers
  are converted to \<^verbatim>\<open>float64\<close> first, which rounds them, and each sum is rounded. The
  order and the length of the array are kept.
\<close>

fun np_add :: "py_num \<Rightarrow> ndarray \<Rightarrow> ndarray" where
  "np_add (PyInt r) (Int64Array xs) = Int64Array (map (\<lambda>x. r + x) xs)"
| "np_add (PyInt r) (Float64Array xs) =
     Float64Array (map (\<lambda>x. round_float64 (round_float64 (float_units (sint r)) + x)) xs)"
| "np_add (PyFloat r) (Int64Array xs) =
     Float64Array (map (\<lambda>x. round_float64 (r + round_float64 (float_units (sint x)))) xs)"
| "np_add (PyFloat r) (Float64Array xs) =
     Float64Array (map (\<lambda>x. round_float64 (r + x)) xs)"

text \<open>\<^verbatim>\<open>array.tolist()\<close>: the elements as Python numbers.\<close>

fun tolist :: "ndarray \<Rightarrow> py_num list" where
  "tolist (Int64Array xs) = map PyInt xs"
| "tolist (Float64Array xs) = map PyFloat xs"

text \<open>
  What \<^verbatim>\<open>(r + np.array(xs)).tolist()\<close> holds for one element \<open>x\<close> of a list of 64-bit
  integers: the sum in \<^verbatim>\<open>int64\<close> for an integer \<open>r\<close>, the rounded sum of \<open>r\<close> and the
  converted element for a float \<open>r\<close>. It is used to state the lemmas.
\<close>

fun num_add :: "py_num \<Rightarrow> 64 word \<Rightarrow> py_num" where
  "num_add (PyInt r) x = PyInt (r + x)"
| "num_add (PyFloat r) x =
     PyFloat (round_float64 (r + round_float64 (float_units (sint x))))"

subsection \<open>\<^verbatim>\<open>get_separable_angle_list\<close>\<close>

datatype sampling = StepCount int | ExplicitOffsets "64 word list"

text \<open>
  A step count is a Python integer of any size. The offsets of a list are Python
  integers that fit 64 bits, which \<^verbatim>\<open>np.array\<close> stores as \<^verbatim>\<open>int64\<close>.

  Line 65, \<^verbatim>\<open>original_angles = original_angles or len(samplings) * [0.]\<close>: the argument
  is replaced by zeros when it is \<^verbatim>\<open>None\<close> and also when it is an empty list, both
  being false in Python. The zeros are floats.
\<close>

definition default_angles :: "sampling list \<Rightarrow> py_num list option \<Rightarrow> py_num list" where
  "default_angles samplings original_angles =
     (case original_angles of
        None \<Rightarrow> replicate (length samplings) (PyFloat 0)
      | Some oa \<Rightarrow> if oa = [] then replicate (length samplings) (PyFloat 0) else oa)"

text \<open>
  The body of the \<^verbatim>\<open>for ind, angles in enumerate(samplings)\<close> loop, lines 70 to 81:
  the value that is appended. For a number, \<^verbatim>\<open>360 // angles\<close> raises
  \<^verbatim>\<open>ZeroDivisionError\<close> exactly when the number is zero, and the handler returns the
  original angle alone; otherwise the \<^verbatim>\<open>else\<close> branch of the \<^verbatim>\<open>try\<close> runs.
  Python's \<^verbatim>\<open>//\<close> on integers rounds towards minus infinity, as \<open>div\<close> on
  \<^typ>\<open>int\<close> does. The products \<^verbatim>\<open>step * i\<close> are Python integers; for a positive step
  count they lie from 0 to 359 (\<open>step_product_bounds\<close> below), so they are stored in the
  \<^verbatim>\<open>int64\<close> array as they are. Every branch reads \<^verbatim>\<open>original_angles[ind]\<close>, outside any
  \<^verbatim>\<open>try\<close> that would catch its \<^verbatim>\<open>IndexError\<close>.
\<close>

definition sample_angles :: "py_num list \<Rightarrow> nat \<Rightarrow> sampling \<Rightarrow> py_error + py_num list" where
  "sample_angles original_angles ind angles =
     (case angles of
        StepCount n \<Rightarrow>
          if n = 0 then
            (case py_getitem original_angles ind of
               Inl e \<Rightarrow> Inl e
             | Inr r \<Rightarrow> Inr (tolist (np_add r (np_array [0]))))
          else
            (let step = 360 div n in
             case py_getitem original_angles ind of
               Inl e \<Rightarrow> Inl e
             | Inr r \<Rightarrow>
                 Inr (tolist (np_add r
                        (np_array (map (\<lambda>i. word_of_int (step * i)) (py_range n))))))
      | ExplicitOffsets offsets \<Rightarrow>
          (case py_getitem original_angles ind of
             Inl e \<Rightarrow> Inl e
           | Inr r \<Rightarrow> Inr (tolist (np_add r (np_array offsets)))))"

text \<open>The loop, with \<^verbatim>\<open>angle_list\<close> as the accumulator; an exception ends it.\<close>

fun angle_loop ::
  "py_num list \<Rightarrow> (nat \<times> sampling) list \<Rightarrow> py_num list list \<Rightarrow>
   py_error + py_num list list" where
  "angle_loop original_angles [] angle_list = Inr angle_list"
| "angle_loop original_angles ((ind, angles) # rest) angle_list =
     (case sample_angles original_angles ind angles of
        Inl e \<Rightarrow> Inl e
      | Inr a \<Rightarrow> angle_loop original_angles rest (angle_list @ [a]))"

definition get_separable_angle_list ::
  "sampling list \<Rightarrow> py_num list option \<Rightarrow> py_error + py_num list list" where
  "get_separable_angle_list samplings original_angles =
     angle_loop (default_angles samplings original_angles) (enumerate 0 samplings) []"

text \<open>
  Line 75 alone, \<^verbatim>\<open>original_angles[ind] + np.array([0])\<close> followed by \<^verbatim>\<open>.tolist()\<close>, for an
  original angle that is a Python integer of any size. Within 64 bits it is the sum
  above. Outside, numpy from version 2 on converts the integer to the \<^verbatim>\<open>int64\<close> of the
  array and raises \<^verbatim>\<open>OverflowError\<close>, which nothing in the function catches; that is
  the behaviour modelled (earlier versions turned the array into \<^verbatim>\<open>float64\<close> or into an
  array of Python objects).
\<close>

definition zero_step_any_int :: "int \<Rightarrow> py_error + py_num list" where
  "zero_step_any_int r =
     (if - (2 ^ 63) \<le> r \<and> r < 2 ^ 63
      then Inr (tolist (np_add (PyInt (word_of_int r)) (np_array [0])))
      else Inl OverflowError)"

subsection \<open>\<^verbatim>\<open>get_angle_mesh\<close>\<close>

text \<open>
  \<^verbatim>\<open>itertools.product(*iterables)\<close>, as the Python library documents it:
  \<^verbatim>\<open>
  result = [[]]
  for pool in pools:
      result = [x+[y] for x in result for y in pool]
  \<close>
  and then every element of \<^verbatim>\<open>result\<close> is yielded as a tuple. A tuple is modelled as
  a list, and the iterator as the list of what it yields, in order.
\<close>

definition product_step :: "'a list list \<Rightarrow> 'a list \<Rightarrow> 'a list list" where
  "product_step result pool = concat (map (\<lambda>x. map (\<lambda>y. x @ [y]) pool) result)"

definition itertools_product :: "'a list list \<Rightarrow> 'a list list" where
  "itertools_product pools = foldl product_step [[]] pools"

definition get_angle_mesh :: "'a list list \<Rightarrow> 'a list list" where
  "get_angle_mesh angle_list = itertools_product angle_list"

subsection \<open>\<^verbatim>\<open>conformers_by_change_torsions\<close>\<close>

text \<open>
  A Python \<^verbatim>\<open>dict\<close> keeps its keys in insertion order: assigning to a key that is
  present replaces the value where it stands, assigning to a new key appends it. The
  dictionary is an association list in that order.
\<close>

type_synonym ('k, 'v) py_dict = "('k \<times> 'v) list"

fun dict_setitem :: "'k \<Rightarrow> 'v \<Rightarrow> ('k, 'v) py_dict \<Rightarrow> ('k, 'v) py_dict" where
  "dict_setitem k v [] = [(k, v)]"
| "dict_setitem k v ((k', v') # d) =
     (if k' = k then (k', v) # d else (k', v') # dict_setitem k v d)"

definition dict_get :: "('k, 'v) py_dict \<Rightarrow> 'k \<Rightarrow> 'v option" where
  "dict_get d k = map_of d k"

definition dict_keys :: "('k, 'v) py_dict \<Rightarrow> 'k list" where
  "dict_keys d = map fst d"

definition dict_values :: "('k, 'v) py_dict \<Rightarrow> 'v list" where
  "dict_values d = map snd d"

text \<open>
  The entry stored per conformer, a dictionary with the keys \<^verbatim>\<open>'angles'\<close>,
  \<^verbatim>\<open>'coords'\<close> and \<^verbatim>\<open>'colliding_atoms'\<close>. The first is a tuple of the mesh, whose
  elements have the type \<open>'a\<close>. The coordinates are whatever
  \<^verbatim>\<open>conf.GetPositions().tolist()\<close> returns, the type \<open>'p\<close>; the last field is Python's
  \<^verbatim>\<open>None\<close> or a boolean.
\<close>

record ('a, 'p) conformer_entry =
  angles :: "'a list"
  coords :: 'p
  colliding_atoms :: "bool option"

type_synonym torsion = "nat list"

text \<open>
  Modelled from the spec: the class \<^verbatim>\<open>RDKitConf\<close> of \<^verbatim>\<open>ccg.backend.rdk\<close>, which the
  notebook imports and whose code is not part of the notebook. The specification gives
  the handle the capabilities \<^verbatim>\<open>setAllTorsionAngles(assignment) -> void\<close>,
  \<^verbatim>\<open>getPositions() -> ordered sequence of 3-D points\<close>,
  \<^verbatim>\<open>hasCollidingAtoms() -> boolean\<close> and the handle's declared torsional modes;
  setting the torsions mutates the handle, the other three read it. The methods are the
  fields of a record, so every theorem holds for any handle of that interface; \<open>'c\<close> is
  the state of the handle.
\<close>

record ('a, 'c, 'p) RDKitConf =
  SetAllTorsionsDeg :: "'a list \<Rightarrow> 'c \<Rightarrow> 'c"
  GetPositions :: "'c \<Rightarrow> 'p"
  HasCollidingAtoms :: "'c \<Rightarrow> bool"
  GetTorsionalModes :: "'c \<Rightarrow> torsion list"

text \<open>
  The entry of lines 118 to 121, read off the handle once its torsions are set. The
  source stores the entry with its first two keys and then adds
  \<^verbatim>\<open>'colliding_atoms'\<close> to the same inner dictionary; the model builds the finished
  entry at once, the calls on the handle being in the source's order.
  \<^verbatim>\<open>HasCollidingAtoms\<close> is called only when the check is requested.
\<close>

definition bookkeep_entry ::
  "('a, 'c, 'p) RDKitConf \<Rightarrow> bool \<Rightarrow> 'a list \<Rightarrow> 'c \<Rightarrow> ('a, 'p) conformer_entry" where
  "bookkeep_entry rdk on_the_fly_check angs conf =
     \<lparr>angles = angs,
      coords = GetPositions rdk conf,
      colliding_atoms =
        (if on_the_fly_check then Some (HasCollidingAtoms rdk conf) else None)\<rparr>"

text \<open>
  The loop of lines 115 to 121 over \<^verbatim>\<open>enumerate(angle_mesh)\<close>. The handle and the
  dictionary are mutated in place by the source and passed on here.
\<close>

fun torsion_loop ::
  "('a, 'c, 'p) RDKitConf \<Rightarrow> bool \<Rightarrow> (nat \<times> 'a list) list \<Rightarrow> 'c \<Rightarrow>
   (nat, ('a, 'p) conformer_entry) py_dict \<Rightarrow>
   'c \<times> (nat, ('a, 'p) conformer_entry) py_dict" where
  "torsion_loop rdk on_the_fly_check [] conf bookkeep = (conf, bookkeep)"
| "torsion_loop rdk on_the_fly_check ((ind, angs) # rest) conf bookkeep =
     (let conf' = SetAllTorsionsDeg rdk angs conf
      in torsion_loop rdk on_the_fly_check rest conf'
           (dict_setitem ind (bookkeep_entry rdk on_the_fly_check angs conf') bookkeep))"

text \<open>
  The function returns nothing; its effect is the new state of the handle and of the
  dictionary, which the model returns. Lines 113 and 114 fill in \<^verbatim>\<open>torsions\<close> from
  the handle when the argument is \<^verbatim>\<open>None\<close> or empty; the loop never reads it.
\<close>

definition conformers_by_change_torsions ::
  "('a, 'c, 'p) RDKitConf \<Rightarrow> 'c \<Rightarrow> 'a list list \<Rightarrow>
   (nat, ('a, 'p) conformer_entry) py_dict \<Rightarrow> torsion list option \<Rightarrow> bool \<Rightarrow>
   'c \<times> (nat, ('a, 'p) conformer_entry) py_dict" where
  "conformers_by_change_torsions rdk conf angle_mesh bookkeep torsions on_the_fly_check =
     (let torsions' = (case torsions of
                         None \<Rightarrow> GetTorsionalModes rdk conf
                       | Some ts \<Rightarrow> if ts = [] then GetTorsionalModes rdk conf else ts)
      in torsion_loop rdk on_the_fly_check (enumerate 0 angle_mesh) conf bookkeep)"

text \<open>
  The cell under ``1.1 Use RDKit to generate conformers'' calls
  \<^verbatim>\<open>get_separable_angle_list\<close>, takes \<^verbatim>\<open>product(*angles_list)\<close> of its result, which is
  what \<^verbatim>\<open>get_angle_mesh\<close> returns, and calls \<^verbatim>\<open>conformers_by_change_torsions\<close> on an
  empty dictionary; here the constants of the cell are arguments. An exception of the
  first function ends the cell before any conformer is made.
\<close>

definition generate_conformers ::
  "(py_num, 'c, 'p) RDKitConf \<Rightarrow> 'c \<Rightarrow> sampling list \<Rightarrow> py_num list option \<Rightarrow>
   torsion list option \<Rightarrow> bool \<Rightarrow>
   py_error + 'c \<times> (nat, (py_num, 'p) conformer_entry) py_dict" where
  "generate_conformers rdk conf samplings original_angles torsions on_the_fly_check =
     (case get_separable_angle_list samplings original_angles of
        Inl e \<Rightarrow> Inl e
      | Inr angles_list \<Rightarrow>
          Inr (conformers_by_change_torsions rdk conf (get_angle_mesh angles_list) []
                 torsions on_the_fly_check))"

subsection \<open>A handle for concrete instances\<close>

text \<open>
  The state of this handle is the list of torsion angles last set. Its positions are
  that list, and two atoms collide when two torsions have the same angle.
\<close>

definition angles_conf :: "('a, 'a list, 'a list) RDKitConf" where
  "angles_conf =
     \<lparr>SetAllTorsionsDeg = (\<lambda>angs conf. angs),
      GetPositions = (\<lambda>conf. conf),
      HasCollidingAtoms = (\<lambda>conf. \<not> distinct conf),
      GetTorsionalModes = (\<lambda>conf. [])\<rparr>"

section \<open>Integers and floats in an array\<close>

text \<open>
  A number of at most 53 significant bits is a \<^verbatim>\<open>float64\<close>: rounding leaves it as it is.
  In particular every integer below \<open>2\<^sup>5\<^sup>3\<close> in absolute value is a float.
\<close>

lemma float_exp_small: "a < 2 ^ 53 \<Longrightarrow> float_exp a = 0"
  by (simp add: float_exp.simps)

lemma float_exp_le: "a div 2 ^ k < 2 ^ 53 \<Longrightarrow> float_exp a \<le> k"
proof (induction k arbitrary: a)
  case 0
  then show ?case by (simp add: float_exp_small)
next
  case (Suc k)
  show ?case
  proof (cases "a < 2 ^ 53")
    case True
    then show ?thesis by (simp add: float_exp_small)
  next
    case False
    have "(a div 2) div 2 ^ k = a div 2 ^ Suc k"
      by (simp add: zdiv_zmult2_eq)
    with Suc.prems have "float_exp (a div 2) \<le> k"
      by (intro Suc.IH) simp
    with False show ?thesis by (simp add: float_exp.simps [of a])
  qed
qed

lemma round_float64_representable:
  assumes "\<bar>m\<bar> < 2 ^ 53"
  shows "round_float64 (m * 2 ^ k) = m * 2 ^ k"
proof -
  define x where "x = m * 2 ^ k"
  define a where "a = \<bar>x\<bar>"
  define e where "e = float_exp a"
  have a: "a = \<bar>m\<bar> * 2 ^ k" by (simp add: a_def x_def abs_mult)
  then have "a div 2 ^ k = \<bar>m\<bar>" by simp
  with assms have "e \<le> k" unfolding e_def by (intro float_exp_le) simp
  then obtain d where k: "k = e + d" using le_Suc_ex by blast
  have fact: "a = (\<bar>m\<bar> * 2 ^ d) * 2 ^ e"
    unfolding a k by (simp add: power_add)
  have r: "round_float64 x =
      (if e = 0 then x
       else sgn x * ((if 2 ^ (e - 1) < a mod 2 ^ e \<or>
                         (a mod 2 ^ e = 2 ^ (e - 1) \<and> odd (a div 2 ^ e))
                      then a div 2 ^ e + 1 else a div 2 ^ e) * 2 ^ e))"
    by (simp add: round_float64_def Let_def a_def e_def)
  show ?thesis
  proof (cases "e = 0")
    case True
    with r show ?thesis by (simp add: x_def)
  next
    case False
    have md: "a mod 2 ^ e = 0" unfolding fact by simp
    then have dv: "a div 2 ^ e * 2 ^ e = a"
      by (simp add: mod_0_imp_dvd)
    have h: "(0::int) < 2 ^ (e - 1)" by simp
    from r False md h have "round_float64 x = sgn x * (a div 2 ^ e * 2 ^ e)"
      by simp
    also have "\<dots> = sgn x * a" by (simp only: dv)
    also have "\<dots> = x" by (simp add: a_def sgn_mult_abs)
    finally show ?thesis by (simp add: x_def)
  qed
qed

lemma round_float64_units: "\<bar>v\<bar> < 2 ^ 53 \<Longrightarrow> round_float64 (float_units v) = float_units v"
  unfolding float_units_def by (rule round_float64_representable)

lemma round_float64_0: "round_float64 0 = 0"
  by (simp add: round_float64_def float_exp_small)

lemma float_units_add: "float_units (a + b) = float_units a + float_units b"
  unfolding float_units_def by (rule distrib_right)

lemma float_units_0: "float_units 0 = 0"
  by (simp add: float_units_def)

lemma float_units_less: "a < b \<Longrightarrow> float_units a < float_units b"
  unfolding float_units_def by (rule mult_strict_right_mono) simp_all

text \<open>
  The products \<^verbatim>\<open>step * i\<close> of a positive step count lie from 0 to 359. A sum of two
  64-bit integers that stays within 64 bits is the sum of the integers.
\<close>

lemma step_product_bounds:
  fixes n :: int
  assumes "0 < n" and "k < nat n"
  shows "0 \<le> (360 div n) * int k \<and> (360 div n) * int k < 360"
proof -
  let ?s = "360 div n"
  from assms have k: "int k \<le> n - 1" by simp
  from assms(1) have s0: "0 \<le> ?s" by (simp add: pos_imp_zdiv_nonneg_iff)
  have "n * ?s + 360 mod n = 360" by simp
  moreover from assms(1) have "0 \<le> 360 mod n" by simp
  ultimately have ns: "n * ?s \<le> 360" by linarith
  from k s0 have "?s * int k \<le> ?s * (n - 1)" by (rule mult_left_mono)
  also have "\<dots> = n * ?s - ?s" by (simp add: algebra_simps)
  finally have le: "?s * int k \<le> n * ?s - ?s" .
  show ?thesis
  proof (cases "?s = 0")
    case True
    then show ?thesis by simp
  next
    case False
    with s0 have "0 < ?s" by simp
    with le ns have "?s * int k < 360" by linarith
    moreover from s0 have "0 \<le> ?s * int k" by simp
    ultimately show ?thesis by simp
  qed
qed

lemma sint_word_of_int_small:
  "- (2 ^ 63) \<le> v \<Longrightarrow> v < 2 ^ 63 \<Longrightarrow> sint (word_of_int v :: 64 word) = v"
  by (simp add: sint_sbintrunc' signed_take_bit_int_eq_self)

lemma sint_add_exact:
  fixes a b :: "64 word"
  assumes "- (2 ^ 63) \<le> sint a + sint b" and "sint a + sint b < 2 ^ 63"
  shows "sint (a + b) = sint a + sint b"
  using assms by (simp add: sint_word_add signed_take_bit_int_eq_self)

lemma tolist_np_add: "tolist (np_add r (np_array xs)) = map (num_add r) xs"
  by (cases r) (simp_all add: np_array_def comp_def)

lemma num_add_exact:
  assumes "case r of
             PyInt w \<Rightarrow> - (2 ^ 63) \<le> sint w + sint x \<and> sint w + sint x < 2 ^ 63
           | PyFloat m \<Rightarrow>
               \<bar>sint x\<bar> < 2 ^ 53 \<and>
               round_float64 (m + float_units (sint x)) = m + float_units (sint x)"
  shows "num_val (num_add r x) = num_val r + float_units (sint x)"
proof (cases r)
  case (PyInt w)
  with assms show ?thesis by (simp add: sint_add_exact float_units_add)
next
  case (PyFloat m)
  with assms show ?thesis by (simp add: round_float64_units)
qed

section \<open>The angle lists\<close>

text \<open>
  When the index is within \<^verbatim>\<open>original_angles\<close> the loop body returns; the three shapes
  of its result are read off the source.
\<close>

lemma sample_angles_Inr:
  "ind < length oa \<Longrightarrow> sample_angles oa ind a =
     Inr (case a of
            StepCount n \<Rightarrow>
              if n = 0 then [num_add (oa ! ind) 0]
              else map (\<lambda>k. num_add (oa ! ind) (word_of_int ((360 div n) * int k)))
                     [0..<nat n]
          | ExplicitOffsets offsets \<Rightarrow> map (num_add (oa ! ind)) offsets)"
  by (simp add: sample_angles_def py_getitem_def tolist_np_add py_range_def comp_def
           split: sampling.split)

lemma sample_angles_Inl:
  "length oa \<le> ind \<Longrightarrow> sample_angles oa ind a = Inl IndexError"
  by (simp add: sample_angles_def py_getitem_def split: sampling.split)

text \<open>
  The loop started at index \<open>k\<close> with \<open>acc\<close> collected so far: it returns when the
  original angles reach to the last index, and raises otherwise.
\<close>

lemma angle_loop_Inr:
  "k + length ss \<le> length oa \<Longrightarrow>
   angle_loop oa (enumerate k ss) acc =
     Inr (acc @ map (\<lambda>(i, a). projr (sample_angles oa i a)) (enumerate k ss))"
proof (induction ss arbitrary: k acc)
  case Nil
  then show ?case by simp
next
  case (Cons s ss)
  from Cons.prems have "k < length oa" and "Suc k + length ss \<le> length oa" by simp_all
  then show ?case
    using Cons.IH [of "Suc k"] by (simp add: sample_angles_Inr)
qed

lemma angle_loop_Inl:
  "k \<le> length oa \<Longrightarrow> length oa < k + length ss \<Longrightarrow>
   angle_loop oa (enumerate k ss) acc = Inl IndexError"
proof (induction ss arbitrary: k acc)
  case Nil
  then show ?case by simp
next
  case (Cons s ss)
  show ?case
  proof (cases "k < length oa")
    case True
    with Cons.prems have "Suc k \<le> length oa" and "length oa < Suc k + length ss" by simp_all
    then show ?thesis
      using Cons.IH [of "Suc k"] True by (simp add: sample_angles_Inr)
  next
    case False
    then show ?thesis by (simp add: sample_angles_Inl)
  qed
qed

lemma get_separable_angle_list_Inr:
  assumes "length samplings \<le> length (default_angles samplings original_angles)"
  shows "get_separable_angle_list samplings original_angles =
     Inr (map (\<lambda>(i, a). projr (sample_angles (default_angles samplings original_angles) i a))
            (enumerate 0 samplings))"
  using assms by (simp add: get_separable_angle_list_def angle_loop_Inr)

lemma get_separable_angle_list_nth:
  assumes "length samplings \<le> length (default_angles samplings original_angles)"
  shows "\<exists>angle_list.
           get_separable_angle_list samplings original_angles = Inr angle_list \<and>
           length angle_list = length samplings \<and>
           (\<forall>i < length samplings.
              sample_angles (default_angles samplings original_angles) i (samplings ! i) =
                Inr (angle_list ! i))"
proof -
  let ?oa = "default_angles samplings original_angles"
  let ?al = "map (\<lambda>(i, a). projr (sample_angles ?oa i a)) (enumerate 0 samplings)"
  have "sample_angles ?oa i (samplings ! i) = Inr (?al ! i)" if "i < length samplings" for i
  proof -
    from that assms have "i < length ?oa" by simp
    then obtain x where "sample_angles ?oa i (samplings ! i) = Inr x"
      using sample_angles_Inr by blast
    with that show ?thesis by (simp add: nth_enumerate_eq)
  qed
  with get_separable_angle_list_Inr [OF assms] show ?thesis by simp
qed

lemma default_angles_None:
  "default_angles samplings None = replicate (length samplings) (PyFloat 0)"
  by (simp add: default_angles_def)

lemma default_angles_Some: "refs \<noteq> [] \<Longrightarrow> default_angles samplings (Some refs) = refs"
  by (simp add: default_angles_def)

lemma default_angles_Some_Nil: "default_angles samplings (Some []) = default_angles samplings None"
  by (simp add: default_angles_def)

lemma sample_at:
  assumes "i < length samplings"
    and "length samplings \<le> length (default_angles samplings original_angles)"
  shows "\<exists>angle_list.
           get_separable_angle_list samplings original_angles = Inr angle_list \<and>
           length angle_list = length samplings \<and>
           sample_angles (default_angles samplings original_angles) i (samplings ! i) =
             Inr (angle_list ! i) \<and>
           i < length (default_angles samplings original_angles)"
  using get_separable_angle_list_nth [OF assms(2)] assms by auto

lemma step_count_angles:
  assumes "i < length samplings" and "samplings ! i = StepCount n" and "n \<noteq> 0"
    and "length samplings \<le> length (default_angles samplings original_angles)"
  shows "\<exists>angle_list.
           get_separable_angle_list samplings original_angles = Inr angle_list \<and>
           length angle_list = length samplings \<and>
           angle_list ! i =
             map (\<lambda>k. num_add (default_angles samplings original_angles ! i)
                        (word_of_int (int k * (360 div n))))
               [0..<nat n]"
proof -
  let ?oa = "default_angles samplings original_angles"
  from sample_at [OF assms(1,4)] obtain angle_list where
    al: "get_separable_angle_list samplings original_angles = Inr angle_list"
    "length angle_list = length samplings"
    "sample_angles ?oa i (samplings ! i) = Inr (angle_list ! i)"
    "i < length ?oa"
    by blast
  from sample_angles_Inr [OF al(4), of "StepCount n"] al(3) assms(2,3)
  have "angle_list ! i =
      map (\<lambda>k. num_add (?oa ! i) (word_of_int (int k * (360 div n)))) [0..<nat n]"
    by (simp add: mult.commute)
  with al show ?thesis by simp
qed

text \<open>One sum of a step-count schedule: what is stored, and when it is the exact sum.\<close>

lemma num_add_step:
  assumes "0 \<le> v" and "v < 360"
  shows "num_add r (word_of_int v) =
           (case r of
              PyInt w \<Rightarrow> PyInt (w + word_of_int v)
            | PyFloat m \<Rightarrow> PyFloat (round_float64 (m + float_units v)))"
proof (cases r)
  case (PyInt w)
  then show ?thesis by simp
next
  case (PyFloat m)
  from assms have "sint (word_of_int v :: 64 word) = v"
    by (intro sint_word_of_int_small) simp_all
  moreover from assms have "round_float64 (float_units v) = float_units v"
    by (intro round_float64_units) simp
  ultimately show ?thesis using PyFloat by simp
qed

lemma num_add_step_exact:
  assumes "0 \<le> v" and "v < 360"
    and "case r of
           PyInt w \<Rightarrow> sint w + v < 2 ^ 63
         | PyFloat m \<Rightarrow> round_float64 (m + float_units v) = m + float_units v"
  shows "num_val (num_add r (word_of_int v)) = num_val r + float_units v"
proof (cases r)
  case (PyInt w)
  from assms(1,2) have v: "sint (word_of_int v :: 64 word) = v"
    by (intro sint_word_of_int_small) simp_all
  have "- (2 ^ 63) \<le> sint w" using sint_ge [of w] by simp
  with assms(1) have "- (2 ^ 63) \<le> sint w + v" by simp
  moreover from assms(3) PyInt have "sint w + v < 2 ^ 63" by simp
  ultimately have "sint (w + word_of_int v) = sint w + v"
    using sint_add_exact [of w "word_of_int v"] v by simp
  with PyInt show ?thesis by (simp add: float_units_add)
next
  case (PyFloat m)
  with assms(3) num_add_step [OF assms(1,2), of r] show ?thesis by simp
qed

text \<open>
  Claim C3, as stated, fails when the sum leaves the range of \<^verbatim>\<open>int64\<close>: with the
  original angle \<open>2\<^sup>6\<^sup>3 - 1\<close> and the step count 2 the second angle is not
  \<open>2\<^sup>6\<^sup>3 - 1 + 180\<close> but the negative number that the sum wraps around to.
\<close>

theorem step_count_int64_wraps:
  "get_separable_angle_list [StepCount 2] (Some [PyInt 9223372036854775807]) =
     Inr [[PyInt 9223372036854775807, PyInt (- 9223372036854775629)]] \<and>
   sint (- 9223372036854775629 :: 64 word) = - 9223372036854775629"
proof -
  have "[0..<nat 2] = [0, 1]" by code_simp
  then show ?thesis
    by (simp add: get_separable_angle_list_Inr default_angles_def sample_angles_Inr)
qed

text \<open>
  Claim C3, amended. When the original angles reach every dimension, a step count
  \<open>n > 0\<close> at dimension \<open>i\<close>, with \<open>r\<close> the original angle of that dimension (the entry
  of \<^verbatim>\<open>original_angles\<close> after line 65), gives an angle list of exactly \<open>n\<close> values. The
  \<open>k\<close>-th value is the sum of \<open>r\<close> and \<open>k * (360 div n)\<close> in the arithmetic of the array:
  for an integer \<open>r\<close> the sum in \<^verbatim>\<open>int64\<close>, which wraps around, for a float \<open>r\<close> the sum
  rounded to \<^verbatim>\<open>float64\<close>. It is \<open>r + k * (360 div n)\<close> itself whenever that sum is below
  \<open>2\<^sup>6\<^sup>3\<close> for an integer \<open>r\<close>, or is a \<^verbatim>\<open>float64\<close> for a float \<open>r\<close>. No value is reduced
  into the range from 0 to 360.
\<close>

theorem step_count_schedule:
  assumes "i < length samplings" and "samplings ! i = StepCount n" and "0 < n"
    and "length samplings \<le> length (default_angles samplings original_angles)"
  shows "\<exists>angle_list.
           get_separable_angle_list samplings original_angles = Inr angle_list \<and>
           length angle_list = length samplings \<and>
           length (angle_list ! i) = nat n \<and>
           (\<forall>k < nat n.
              angle_list ! i ! k =
                (case default_angles samplings original_angles ! i of
                   PyInt w \<Rightarrow> PyInt (w + word_of_int (int k * (360 div n)))
                 | PyFloat m \<Rightarrow>
                     PyFloat (round_float64 (m + float_units (int k * (360 div n)))))) \<and>
           (\<forall>k < nat n.
              (case default_angles samplings original_angles ! i of
                 PyInt w \<Rightarrow> sint w + int k * (360 div n) < 2 ^ 63
               | PyFloat m \<Rightarrow>
                   round_float64 (m + float_units (int k * (360 div n))) =
                     m + float_units (int k * (360 div n))) \<longrightarrow>
              num_val (angle_list ! i ! k) =
                num_val (default_angles samplings original_angles ! i) +
                float_units (int k * (360 div n)))"
proof -
  let ?r = "default_angles samplings original_angles ! i"
  from assms(3) have "n \<noteq> 0" by simp
  from step_count_angles [OF assms(1,2) this assms(4)] obtain angle_list where
    al: "get_separable_angle_list samplings original_angles = Inr angle_list"
      "length angle_list = length samplings"
      "angle_list ! i = map (\<lambda>k. num_add ?r (word_of_int (int k * (360 div n)))) [0..<nat n]"
    by blast
  have b: "0 \<le> int k * (360 div n) \<and> int k * (360 div n) < 360" if "k < nat n" for k
    using step_product_bounds [OF assms(3) that] by (simp add: mult.commute)
  have nth: "angle_list ! i ! k = num_add ?r (word_of_int (int k * (360 div n)))"
    if "k < nat n" for k
    using that al(3) by simp
  have stored: "angle_list ! i ! k =
      (case ?r of
         PyInt w \<Rightarrow> PyInt (w + word_of_int (int k * (360 div n)))
       | PyFloat m \<Rightarrow> PyFloat (round_float64 (m + float_units (int k * (360 div n)))))"
    if "k < nat n" for k
    using nth [OF that] b [OF that] num_add_step [of "int k * (360 div n)" ?r] by simp
  have exact: "num_val (angle_list ! i ! k) = num_val ?r + float_units (int k * (360 div n))"
    if "k < nat n"
      and "case ?r of
             PyInt w \<Rightarrow> sint w + int k * (360 div n) < 2 ^ 63
           | PyFloat m \<Rightarrow>
               round_float64 (m + float_units (int k * (360 div n))) =
                 m + float_units (int k * (360 div n))" for k
    using nth [OF that(1)] b [OF that(1)] that(2)
      num_add_step_exact [of "int k * (360 div n)" ?r] by simp
  from al have "length (angle_list ! i) = nat n" by simp
  with al(1,2) stored exact show ?thesis by blast
qed

theorem step_count_schedule_witness:
  "\<exists>angle_list.
     get_separable_angle_list [StepCount 2, StepCount 7] (Some [PyInt 300, PyFloat 0]) =
       Inr angle_list \<and>
     length angle_list = 2 \<and> length (angle_list ! 0) = 2 \<and>
     angle_list ! 0 ! 1 = PyInt 480"
proof -
  from step_count_schedule [of 0 "[StepCount 2, StepCount 7]" 2 "Some [PyInt 300, PyFloat 0]"]
  obtain angle_list where
    al: "get_separable_angle_list [StepCount 2, StepCount 7] (Some [PyInt 300, PyFloat 0]) =
       Inr angle_list"
      "length angle_list = 2" "length (angle_list ! 0) = 2"
      "\<forall>k < nat 2. angle_list ! 0 ! k = PyInt (300 + word_of_int (int k * (360 div 2)))"
    by (auto simp add: default_angles_def)
  from al(4) have "angle_list ! 0 ! 1 = PyInt 480" by simp
  with al show ?thesis by auto
qed

text \<open>
  On an original angle within 64 bits, line 75 taken alone is the zero branch of the
  loop body.
\<close>

lemma zero_step_any_int_in_range:
  assumes "- (2 ^ 63) \<le> r" and "r < 2 ^ 63"
    and "ind < length oa" and "oa ! ind = PyInt (word_of_int r)"
  shows "sample_angles oa ind (StepCount 0) = zero_step_any_int r"
  using assms by (simp add: sample_angles_Inr zero_step_any_int_def tolist_np_add)




text \<open>
  Claim C5, as stated, fails in two ways. With the original angle 1 the offset
  \<open>2\<^sup>6\<^sup>3 - 1\<close> gives \<open>- 2\<^sup>6\<^sup>3\<close>, the sum wrapped around in \<^verbatim>\<open>int64\<close>. Without original
  angles the reference is the float zero, so the offsets become floats: the offset
  \<open>2\<^sup>5\<^sup>3 + 1\<close> gives the float \<open>2\<^sup>5\<^sup>3\<close>.
\<close>

theorem explicit_offsets_wrap_and_round:
  "get_separable_angle_list [ExplicitOffsets [9223372036854775807]] (Some [PyInt 1]) =
     Inr [[PyInt (- 9223372036854775808)]] \<and>
   sint (- 9223372036854775808 :: 64 word) = - 9223372036854775808 \<and>
   get_separable_angle_list [ExplicitOffsets [9007199254740993]] None =
     Inr [[PyFloat (float_units 9007199254740992)]]"
proof -
  have "round_float64 (float_units 9007199254740993) = float_units 9007199254740992"
    by code_simp
  moreover have "round_float64 (float_units 9007199254740992) = float_units 9007199254740992"
    by code_simp
  ultimately show ?thesis
    by (simp add: get_separable_angle_list_Inr default_angles_def sample_angles_Inr)
qed

text \<open>
  Claim C5, amended. Explicit offsets \<open>o\<^sub>0, \<dots>, o\<^sub>m\<^sub>-\<^sub>1\<close> at dimension \<open>i\<close> give, when the
  original angles reach every dimension, an angle list of the same length and in the same
  order, \<open>r\<close> being the original angle of that dimension. Its \<open>j\<close>-th value is the sum of
  \<open>r\<close> and \<open>o\<^sub>j\<close> in the arithmetic of the array: in \<^verbatim>\<open>int64\<close>, which wraps around, for an
  integer \<open>r\<close>; for a float \<open>r\<close> the offset is rounded to \<^verbatim>\<open>float64\<close> and so is the sum. It
  is \<open>r + o\<^sub>j\<close> itself whenever that sum stays within \<^verbatim>\<open>int64\<close> for an integer \<open>r\<close>, or
  the offset is below \<open>2\<^sup>5\<^sup>3\<close> in absolute value and the sum is a \<^verbatim>\<open>float64\<close> for a float
  \<open>r\<close>. A non-empty \<^verbatim>\<open>original_angles\<close> is used as it is; when the argument is
  \<^verbatim>\<open>None\<close> every original angle is the float 0, the function returns, and every offset
  below \<open>2\<^sup>5\<^sup>3\<close> in absolute value is returned as the float of the same value.
\<close>

theorem explicit_offsets_schedule:
  assumes "i < length samplings" and "samplings ! i = ExplicitOffsets offsets"
  shows "(length samplings \<le> length (default_angles samplings original_angles) \<longrightarrow>
           (\<exists>angle_list.
              get_separable_angle_list samplings original_angles = Inr angle_list \<and>
              length angle_list = length samplings \<and>
              length (angle_list ! i) = length offsets \<and>
              (\<forall>j < length offsets.
                 angle_list ! i ! j =
                   (case default_angles samplings original_angles ! i of
                      PyInt w \<Rightarrow> PyInt (w + offsets ! j)
                    | PyFloat m \<Rightarrow>
                        PyFloat (round_float64
                          (m + round_float64 (float_units (sint (offsets ! j))))))) \<and>
              (\<forall>j < length offsets.
                 (case default_angles samplings original_angles ! i of
                    PyInt w \<Rightarrow> - (2 ^ 63) \<le> sint w + sint (offsets ! j) \<and>
                               sint w + sint (offsets ! j) < 2 ^ 63
                  | PyFloat m \<Rightarrow>
                      \<bar>sint (offsets ! j)\<bar> < 2 ^ 53 \<and>
                      round_float64 (m + float_units (sint (offsets ! j))) =
                        m + float_units (sint (offsets ! j))) \<longrightarrow>
                 num_val (angle_list ! i ! j) =
                   num_val (default_angles samplings original_angles ! i) +
                   float_units (sint (offsets ! j))))) \<and>
         (\<forall>refs. refs \<noteq> [] \<longrightarrow> default_angles samplings (Some refs) = refs) \<and>
         default_angles samplings None = replicate (length samplings) (PyFloat 0) \<and>
         (\<exists>angle_list.
            get_separable_angle_list samplings None = Inr angle_list \<and>
            length (angle_list ! i) = length offsets \<and>
            (\<forall>j < length offsets.
               \<bar>sint (offsets ! j)\<bar> < 2 ^ 53 \<longrightarrow>
               angle_list ! i ! j = PyFloat (float_units (sint (offsets ! j)))))"
proof -
  have gen: "\<exists>angle_list.
              get_separable_angle_list samplings oa = Inr angle_list \<and>
              length angle_list = length samplings \<and>
              angle_list ! i = map (num_add (default_angles samplings oa ! i)) offsets"
    if cover: "length samplings \<le> length (default_angles samplings oa)" for oa
  proof -
    from sample_at [OF assms(1) cover] obtain angle_list where
      al: "get_separable_angle_list samplings oa = Inr angle_list"
        "length angle_list = length samplings"
        "sample_angles (default_angles samplings oa) i (samplings ! i) = Inr (angle_list ! i)"
        "i < length (default_angles samplings oa)"
      by blast
    from sample_angles_Inr [OF al(4), of "ExplicitOffsets offsets"] al(3) assms(2)
    have "angle_list ! i = map (num_add (default_angles samplings oa ! i)) offsets" by simp
    with al show ?thesis by simp
  qed
  have first: "\<exists>angle_list.
      get_separable_angle_list samplings original_angles = Inr angle_list \<and>
      length angle_list = length samplings \<and>
      length (angle_list ! i) = length offsets \<and>
      (\<forall>j < length offsets.
         angle_list ! i ! j =
           (case default_angles samplings original_angles ! i of
              PyInt w \<Rightarrow> PyInt (w + offsets ! j)
            | PyFloat m \<Rightarrow>
                PyFloat (round_float64
                  (m + round_float64 (float_units (sint (offsets ! j))))))) \<and>
      (\<forall>j < length offsets.
         (case default_angles samplings original_angles ! i of
            PyInt w \<Rightarrow> - (2 ^ 63) \<le> sint w + sint (offsets ! j) \<and>
                       sint w + sint (offsets ! j) < 2 ^ 63
          | PyFloat m \<Rightarrow>
              \<bar>sint (offsets ! j)\<bar> < 2 ^ 53 \<and>
              round_float64 (m + float_units (sint (offsets ! j))) =
                m + float_units (sint (offsets ! j))) \<longrightarrow>
         num_val (angle_list ! i ! j) =
           num_val (default_angles samplings original_angles ! i) +
           float_units (sint (offsets ! j)))"
    if cover: "length samplings \<le> length (default_angles samplings original_angles)"
  proof -
    let ?r = "default_angles samplings original_angles ! i"
    from gen [OF cover] obtain angle_list where
      al: "get_separable_angle_list samplings original_angles = Inr angle_list"
        "length angle_list = length samplings"
        "angle_list ! i = map (num_add ?r) offsets"
      by blast
    have "angle_list ! i ! j =
           (case ?r of
              PyInt w \<Rightarrow> PyInt (w + offsets ! j)
            | PyFloat m \<Rightarrow>
                PyFloat (round_float64
                  (m + round_float64 (float_units (sint (offsets ! j))))))"
      if "j < length offsets" for j
      using that al(3) by (cases ?r) simp_all
    moreover have "num_val (angle_list ! i ! j) =
        num_val ?r + float_units (sint (offsets ! j))"
      if "j < length offsets"
        and "case ?r of
            PyInt w \<Rightarrow> - (2 ^ 63) \<le> sint w + sint (offsets ! j) \<and>
                       sint w + sint (offsets ! j) < 2 ^ 63
          | PyFloat m \<Rightarrow>
              \<bar>sint (offsets ! j)\<bar> < 2 ^ 53 \<and>
              round_float64 (m + float_units (sint (offsets ! j))) =
                m + float_units (sint (offsets ! j))" for j
      using that(1) al(3) num_add_exact [OF that(2)] by simp
    moreover from al(3) have "length (angle_list ! i) = length offsets" by simp
    ultimately show ?thesis using al(1,2) by blast
  qed
  have none: "\<exists>angle_list.
      get_separable_angle_list samplings None = Inr angle_list \<and>
      length (angle_list ! i) = length offsets \<and>
      (\<forall>j < length offsets.
         \<bar>sint (offsets ! j)\<bar> < 2 ^ 53 \<longrightarrow>
         angle_list ! i ! j = PyFloat (float_units (sint (offsets ! j))))"
  proof -
    have "length samplings \<le> length (default_angles samplings None)"
      by (simp add: default_angles_None)
    from gen [OF this] assms(1) obtain angle_list where
      al: "get_separable_angle_list samplings None = Inr angle_list"
        "angle_list ! i = map (num_add (PyFloat 0)) offsets"
      by (auto simp add: default_angles_None)
    have "angle_list ! i ! j = PyFloat (float_units (sint (offsets ! j)))"
      if "j < length offsets" and "\<bar>sint (offsets ! j)\<bar> < 2 ^ 53" for j
      using that al(2) by (simp add: round_float64_units)
    moreover from al(2) have "length (angle_list ! i) = length offsets" by simp
    ultimately show ?thesis using al(1) by blast
  qed
  from first none show ?thesis
    by (simp add: default_angles_None default_angles_Some)
qed

theorem explicit_offsets_schedule_witness:
  "(\<exists>angle_list. get_separable_angle_list [ExplicitOffsets [120, 240, - 30], StepCount 4]
       (Some [PyInt 10, PyInt 20]) = Inr angle_list \<and>
       angle_list ! 0 ! 2 = PyInt (- 20) \<and> length (angle_list ! 0) = 3) \<and>
   (\<exists>angle_list. get_separable_angle_list [ExplicitOffsets [120, 240, - 30], StepCount 4] None
       = Inr angle_list \<and> angle_list ! 0 ! 2 = PyFloat (float_units (- 30)))"
proof -
  note t = explicit_offsets_schedule [of 0 "[ExplicitOffsets [120, 240, - 30], StepCount 4]" "[120, 240, - 30]"
      "Some [PyInt 10, PyInt 20]"]
  from t obtain a where
    a: "get_separable_angle_list [ExplicitOffsets [120, 240, - 30], StepCount 4]
       (Some [PyInt 10, PyInt 20]) = Inr a" "length (a ! 0) = 3"
      "\<forall>j < 3. a ! 0 ! j = PyInt (10 + [120, 240, - 30] ! j)"
    by (auto simp add: default_angles_def)
  from a(3) have "a ! 0 ! 2 = PyInt (- 20)" by simp
  moreover from t obtain b where
    b: "get_separable_angle_list [ExplicitOffsets [120, 240, - 30], StepCount 4] None = Inr b"
      "\<forall>j < 3. \<bar>sint ([120, 240, - 30 :: 64 word] ! j)\<bar> < 2 ^ 53 \<longrightarrow>
          b ! 0 ! j = PyFloat (float_units (sint ([120, 240, - 30 :: 64 word] ! j)))"
    by (auto simp add: default_angles_def)
  from b(2) have "b ! 0 ! 2 = PyFloat (float_units (- 30))" by simp
  ultimately show ?thesis using a(1,2) b(1) by blast
qed

lemma sorted_wrt_units_progression:
  fixes r step :: int
  assumes "0 < step"
  shows "sorted_wrt (<) (map (\<lambda>k. r + float_units (int k * step)) [0..<m])"
  unfolding sorted_wrt_iff_nth_less
proof (intro allI impI)
  fix a b assume "a < b" and "b < length (map (\<lambda>k. r + float_units (int k * step)) [0..<m])"
  then have "b < m" and "a < m" by simp_all
  moreover from \<open>a < b\<close> assms have "int a * step < int b * step" by simp
  then have "float_units (int a * step) < float_units (int b * step)"
    by (rule float_units_less)
  ultimately show "map (\<lambda>k. r + float_units (int k * step)) [0..<m] ! a <
      map (\<lambda>k. r + float_units (int k * step)) [0..<m] ! b"
    by simp
qed

text \<open>
  Claim C8, as stated, fails in three ways. For a step count above 360 the step
  \<open>360 div n\<close> is 0 and all \<open>n\<close> angles are equal. With the original angle \<open>2\<^sup>6\<^sup>3 - 1\<close>
  and the step count 2 the sum wraps around in \<^verbatim>\<open>int64\<close> and the second angle is below
  the first. With the float \<open>2\<^sup>6\<^sup>2\<close> as the original angle and the step count 2 the sum
  \<open>2\<^sup>6\<^sup>2 + 180\<close> is rounded back to \<open>2\<^sup>6\<^sup>2\<close> and the two angles are equal.
\<close>

theorem step_count_not_increasing:
  "get_separable_angle_list [StepCount 361] None = Inr [replicate 361 (PyFloat 0)] \<and>
   \<not> sorted_wrt (<) (map num_val (replicate 361 (PyFloat 0))) \<and>
   get_separable_angle_list [StepCount 2] (Some [PyInt 9223372036854775807]) =
     Inr [[PyInt 9223372036854775807, PyInt (- 9223372036854775629)]] \<and>
   sint (- 9223372036854775629 :: 64 word) < sint (9223372036854775807 :: 64 word) \<and>
   get_separable_angle_list [StepCount 2]
       (Some [PyFloat (float_units 4611686018427387904)]) =
     Inr [[PyFloat (float_units 4611686018427387904),
           PyFloat (float_units 4611686018427387904)]]"
proof -
  have a: "get_separable_angle_list [StepCount 361] None = Inr [replicate 361 (PyFloat 0)]"
    by (simp add: get_separable_angle_list_Inr default_angles_def sample_angles_Inr
        round_float64_0 float_units_0 map_replicate_const)
  have "\<not> (replicate 361 (0::int) ! 0 < replicate 361 (0::int) ! 1)" by simp
  moreover have "(0::nat) < 1" "1 < length (replicate 361 (0::int))" by simp_all
  ultimately have "\<not> sorted_wrt (<) (replicate 361 (0::int))"
    unfolding sorted_wrt_iff_nth_less by blast
  then have b: "\<not> sorted_wrt (<) (map num_val (replicate 361 (PyFloat 0)))"
    by simp
  have two: "[0..<nat 2] = [0, 1]" by code_simp
  have c: "get_separable_angle_list [StepCount 2] (Some [PyInt 9223372036854775807]) =
     Inr [[PyInt 9223372036854775807, PyInt (- 9223372036854775629)]]"
    using two by (simp add: get_separable_angle_list_Inr default_angles_def sample_angles_Inr)
  have d: "sint (- 9223372036854775629 :: 64 word) < sint (9223372036854775807 :: 64 word)"
    by simp
  have r1: "round_float64 (float_units 4611686018427387904) =
      float_units 4611686018427387904"
    by code_simp
  have r2: "round_float64 (float_units 4611686018427387904 + float_units 180) =
      float_units 4611686018427387904"
    by code_simp
  have r3: "round_float64 (float_units 180) = float_units 180"
    by (simp add: round_float64_units)
  have e: "get_separable_angle_list [StepCount 2]
       (Some [PyFloat (float_units 4611686018427387904)]) =
     Inr [[PyFloat (float_units 4611686018427387904),
           PyFloat (float_units 4611686018427387904)]]"
    using two r1 r2 r3
    by (simp add: get_separable_angle_list_Inr default_angles_def sample_angles_Inr
        round_float64_0 float_units_0)
  from a b c d e show ?thesis by blast
qed

text \<open>
  Claim C8, amended. Let the original angles reach every dimension, let the step count
  at dimension \<open>i\<close> be \<open>n > 0\<close>, and let every sum be exact: for an integer original
  angle \<open>r\<close> the largest sum \<open>r + (n - 1) * (360 div n)\<close> is below \<open>2\<^sup>6\<^sup>3\<close>, for a float
  \<open>r\<close> every sum \<open>r + k * (360 div n)\<close> with \<open>k < n\<close> is a \<^verbatim>\<open>float64\<close>. Then consecutive
  angles of the list differ by the constant \<open>360 div n\<close>. For \<open>n \<le> 360\<close> that step is
  positive and the list is strictly increasing; for \<open>n > 360\<close> it is 0 and the list is
  \<open>n\<close> values equal to the original angle.
\<close>

theorem step_count_schedule_increasing:
  assumes "i < length samplings" and "samplings ! i = StepCount n" and "0 < n"
    and "length samplings \<le> length (default_angles samplings original_angles)"
    and "case default_angles samplings original_angles ! i of
           PyInt w \<Rightarrow> sint w + (n - 1) * (360 div n) < 2 ^ 63
         | PyFloat m \<Rightarrow>
             \<forall>k < nat n.
               round_float64 (m + float_units (int k * (360 div n))) =
                 m + float_units (int k * (360 div n))"
  shows "\<exists>angle_list.
           get_separable_angle_list samplings original_angles = Inr angle_list \<and>
           (\<forall>k. Suc k < length (angle_list ! i) \<longrightarrow>
              num_val (angle_list ! i ! Suc k) - num_val (angle_list ! i ! k) =
                float_units (360 div n)) \<and>
           (n \<le> 360 \<longrightarrow> 0 < 360 div n \<and> sorted_wrt (<) (map num_val (angle_list ! i))) \<and>
           (360 < n \<longrightarrow>
              map num_val (angle_list ! i) =
                replicate (nat n) (num_val (default_angles samplings original_angles ! i)))"
proof -
  let ?r = "default_angles samplings original_angles ! i"
  let ?step = "360 div n"
  let ?s = "map (\<lambda>k. num_val ?r + float_units (int k * ?step)) [0..<nat n]"
  from assms(3) have "n \<noteq> 0" by simp
  from step_count_angles [OF assms(1,2) this assms(4)] obtain angle_list where
    al: "get_separable_angle_list samplings original_angles = Inr angle_list"
      "angle_list ! i = map (\<lambda>k. num_add ?r (word_of_int (int k * ?step))) [0..<nat n]"
    by blast
  from assms(3) have s0: "0 \<le> ?step" by (simp add: pos_imp_zdiv_nonneg_iff)
  have val: "num_val (num_add ?r (word_of_int (int k * ?step))) =
      num_val ?r + float_units (int k * ?step)"
    if "k < nat n" for k
  proof -
    from step_product_bounds [OF assms(3) that]
    have b: "0 \<le> int k * ?step" "int k * ?step < 360" by (simp_all add: mult.commute)
    from that have "int k \<le> n - 1" by simp
    then have le: "int k * ?step \<le> (n - 1) * ?step" using s0 by (rule mult_right_mono)
    have "case ?r of
            PyInt w \<Rightarrow> sint w + int k * ?step < 2 ^ 63
          | PyFloat m \<Rightarrow>
              round_float64 (m + float_units (int k * ?step)) =
                m + float_units (int k * ?step)"
    proof (cases ?r)
      case (PyInt w)
      with assms(5) le show ?thesis by simp
    next
      case (PyFloat m)
      with assms(5) that show ?thesis by simp
    qed
    from num_add_step_exact [OF b this] show ?thesis .
  qed
  have vals: "map num_val (angle_list ! i) = ?s"
    unfolding al(2) map_map
  proof (rule map_cong [OF refl])
    fix k assume "k \<in> set [0..<nat n]"
    then have "k < nat n" by simp
    from val [OF this]
    show "(num_val \<circ> (\<lambda>k. num_add ?r (word_of_int (int k * ?step)))) k =
        num_val ?r + float_units (int k * ?step)"
      by (simp only: o_apply)
  qed
  have diff: "?s ! Suc k - ?s ! k = float_units ?step" if "Suc k < length ?s" for k
  proof -
    have "int (Suc k) * ?step = int k * ?step + ?step" by (simp add: algebra_simps)
    then have "float_units (int (Suc k) * ?step) =
        float_units (int k * ?step) + float_units ?step"
      by (simp only: float_units_add)
    with that show ?thesis by simp
  qed
  have incr: "0 < ?step \<and> sorted_wrt (<) ?s" if "n \<le> 360"
  proof -
    from that assms(3) have "0 < ?step" by (simp add: pos_imp_zdiv_pos_iff)
    then show ?thesis by (simp add: sorted_wrt_units_progression)
  qed
  have const: "?s = replicate (nat n) (num_val ?r)" if "360 < n"
  proof -
    from that have "?step = 0" by (simp add: div_pos_pos_trivial)
    then show ?thesis by (simp add: map_replicate_const float_units_0)
  qed
  have len: "length (angle_list ! i) = length ?s" by (simp add: al(2))
  have diff': "num_val (angle_list ! i ! Suc k) - num_val (angle_list ! i ! k) =
      float_units ?step"
    if "Suc k < length (angle_list ! i)" for k
  proof -
    from that have "num_val (angle_list ! i ! Suc k) = map num_val (angle_list ! i) ! Suc k"
      and "num_val (angle_list ! i ! k) = map num_val (angle_list ! i) ! k"
      by simp_all
    with diff [of k] that len show ?thesis by (simp only: vals)
  qed
  from al(1) diff' incr const show ?thesis by (auto simp only: vals)
qed

theorem step_count_schedule_increasing_witness:
  "\<exists>angle_list. get_separable_angle_list [StepCount 3] (Some [PyInt 300]) = Inr angle_list \<and>
      (\<forall>k. Suc k < length (angle_list ! 0) \<longrightarrow>
              num_val (angle_list ! 0 ! Suc k) - num_val (angle_list ! 0 ! k) =
                float_units 120) \<and>
      sorted_wrt (<) (map num_val (angle_list ! 0))"
  using step_count_schedule_increasing [of 0 "[StepCount 3]" 3 "Some [PyInt 300]"]
  by (simp add: default_angles_def)

text \<open>
  Claim C7, as stated, fails when the original angles are supplied as an empty list:
  line 65 replaces them by zeros and the function returns the angle lists.
\<close>

theorem empty_original_angles_no_error:
  "get_separable_angle_list [StepCount 2] (Some []) =
     Inr [[PyFloat 0, PyFloat (float_units 180)]]"
proof -
  have "[0..<nat 2] = [0, 1]" by code_simp
  then show ?thesis
    by (simp add: get_separable_angle_list_Inr default_angles_def sample_angles_Inr
        round_float64_units round_float64_0 float_units_0)
qed

text \<open>
  Claim C7, amended. The function does not compare the two lengths. A supplied,
  non-empty \<^verbatim>\<open>original_angles\<close> shorter than \<^verbatim>\<open>samplings\<close> ends the call with the
  \<^verbatim>\<open>IndexError\<close> of \<^verbatim>\<open>original_angles[ind]\<close> and no angle list is returned. A supplied
  empty list is treated as \<^verbatim>\<open>None\<close>: the call returns one angle list per dimension.
\<close>

theorem short_original_angles_IndexError:
  "(refs \<noteq> [] \<and> length refs < length samplings \<longrightarrow>
      get_separable_angle_list samplings (Some refs) = Inl IndexError) \<and>
   get_separable_angle_list samplings (Some []) = get_separable_angle_list samplings None \<and>
   (\<exists>angle_list. get_separable_angle_list samplings None = Inr angle_list \<and>
      length angle_list = length samplings)"
proof -
  have "get_separable_angle_list samplings (Some refs) = Inl IndexError"
    if "refs \<noteq> []" and "length refs < length samplings"
    using that angle_loop_Inl [of 0 refs samplings "[]"]
    by (simp add: get_separable_angle_list_def default_angles_Some)
  moreover have "get_separable_angle_list samplings (Some []) =
      get_separable_angle_list samplings None"
    by (simp add: get_separable_angle_list_def default_angles_Some_Nil)
  moreover have "\<exists>angle_list. get_separable_angle_list samplings None = Inr angle_list \<and>
      length angle_list = length samplings"
    using get_separable_angle_list_nth [of samplings None]
    by (auto simp add: default_angles_None)
  ultimately show ?thesis by blast
qed

theorem short_original_angles_IndexError_witness:
  "get_separable_angle_list [StepCount 2, StepCount 2] (Some [PyInt 5]) = Inl IndexError"
  using short_original_angles_IndexError [of "[PyInt 5]" "[StepCount 2, StepCount 2]"] by simp

section \<open>The mesh\<close>

text \<open>
  The loop of \<^verbatim>\<open>itertools.product\<close> extends every tuple built so far by every element
  of the next pool. Started from a list of prefixes it yields, for each prefix in turn,
  the prefix followed by each tuple of \<^const>\<open>product_lists\<close>.
\<close>

lemma product_step_Nil: "product_step [] pool = []"
  by (simp add: product_step_def)

lemma product_step_Cons:
  "product_step (x # xs) pool = map (\<lambda>y. x @ [y]) pool @ product_step xs pool"
  by (simp add: product_step_def)

lemma product_step_snoc_pool:
  "concat (map (\<lambda>a. map (\<lambda>t. a @ t) ts) (map (\<lambda>y. x @ [y]) pool)) =
   map (\<lambda>t. x @ t) (concat (map (\<lambda>y. map (Cons y) ts) pool))"
  by (induction pool) simp_all

lemma product_step_shift:
  "concat (map (\<lambda>a. map (\<lambda>t. a @ t) (product_lists pools)) (product_step acc pool)) =
   concat (map (\<lambda>a. map (\<lambda>t. a @ t) (product_lists (pool # pools))) acc)"
proof (induction acc)
  case Nil
  then show ?case by (simp add: product_step_Nil)
next
  case (Cons x acc)
  let ?F = "\<lambda>a. map (\<lambda>t. a @ t) (product_lists pools)"
  have "concat (map ?F (product_step (x # acc) pool)) =
        concat (map ?F (map (\<lambda>y. x @ [y]) pool)) @ concat (map ?F (product_step acc pool))"
    by (simp only: product_step_Cons map_append concat_append)
  also have "concat (map ?F (map (\<lambda>y. x @ [y]) pool)) =
        map (\<lambda>t. x @ t) (product_lists (pool # pools))"
    by (simp only: product_step_snoc_pool product_lists.simps)
  finally show ?case by (simp only: Cons.IH list.map concat.simps)
qed

lemma foldl_product_step:
  "foldl product_step acc pools =
   concat (map (\<lambda>a. map (\<lambda>t. a @ t) (product_lists pools)) acc)"
proof (induction pools arbitrary: acc)
  case Nil
  show ?case by simp
next
  case (Cons pool pools)
  then show ?case by (simp add: product_step_shift del: product_lists.simps)
qed

lemma itertools_product_eq: "itertools_product pools = product_lists pools"
  by (simp add: itertools_product_def foldl_product_step map_idI)

lemma length_product_lists_prod:
  "length (product_lists xss) = prod_list (map length xss)"
  by (induction xss) (simp_all add: length_concat comp_def sum_list_triv)

lemma nth_concat_blocks:
  assumes "\<forall>x \<in> set xs. length (f x) = p" and "k < length xs * p"
  shows "concat (map f xs) ! k = f (xs ! (k div p)) ! (k mod p)"
  using assms
proof (induction xs arbitrary: k)
  case Nil
  then show ?case by simp
next
  case (Cons x xs)
  from Cons.prems have p: "0 < p" by (cases p) simp_all
  show ?case
  proof (cases "k < p")
    case True
    with Cons.prems show ?thesis by (simp add: nth_append)
  next
    case False
    then have kp: "p \<le> k" by simp
    with Cons.prems have "k - p < length xs * p" by simp
    with Cons have IH: "concat (map f xs) ! (k - p) = f (xs ! ((k - p) div p)) ! ((k - p) mod p)"
      by simp
    from kp p have "k div p = Suc ((k - p) div p)"
      by (simp add: le_div_geq)
    moreover from kp have "k mod p = (k - p) mod p"
      by (simp add: le_mod_geq)
    ultimately show ?thesis using Cons.prems False IH by (simp add: nth_append)
  qed
qed

lemma product_lists_nth_Cons:
  assumes "k < length xs * length (product_lists xss)"
  shows "product_lists (xs # xss) ! k =
         xs ! (k div length (product_lists xss)) #
         product_lists xss ! (k mod length (product_lists xss))"
proof -
  let ?p = "length (product_lists xss)"
  from assms have p: "0 < ?p" by (cases ?p) simp_all
  have "product_lists (xs # xss) ! k =
        map (Cons (xs ! (k div ?p))) (product_lists xss) ! (k mod ?p)"
    using nth_concat_blocks [of xs "\<lambda>x. map (Cons x) (product_lists xss)" ?p k] assms
    by simp
  with p show ?thesis by simp
qed

lemma mod_div_shift:
  fixes k q m :: nat
  assumes "0 < q"
  shows "(k mod (q * m)) div q = (k div q) mod m"
proof -
  have "k mod (q * m) = q * (k div q mod m) + k mod q" by (rule mod_mult2_eq)
  moreover have "(k mod q + q * (k div q mod m)) div q = k div q mod m"
    using assms by simp
  ultimately show ?thesis by (simp add: add.commute)
qed

lemma product_lists_row_major:
  "k < length (product_lists xss) \<Longrightarrow> j < length xss \<Longrightarrow>
   product_lists xss ! k ! j =
     xss ! j ! ((k div prod_list (map length (drop (Suc j) xss))) mod length (xss ! j))"
proof (induction xss arbitrary: k j)
  case Nil
  then show ?case by simp
next
  case (Cons xs xss)
  let ?p = "length (product_lists xss)"
  from Cons.prems(1) have k: "k < length xs * ?p"
    unfolding length_product_lists_prod by simp
  then have p: "0 < ?p" by (cases ?p) simp_all
  note nth = product_lists_nth_Cons [OF k]
  show ?case
  proof (cases j)
    case 0
    from k have "k div ?p < length xs"
      by (simp add: less_mult_imp_div_less)
    with 0 nth show ?thesis by (simp add: length_product_lists_prod)
  next
    case (Suc j')
    with Cons.prems(2) have j': "j' < length xss" by simp
    let ?q = "prod_list (map length (drop (Suc j') xss))"
    let ?l = "length (xss ! j')"
    from p have "k mod ?p < ?p" by simp
    from Cons.IH [OF this j']
    have "product_lists xss ! (k mod ?p) ! j' = xss ! j' ! (((k mod ?p) div ?q) mod ?l)" .
    moreover have "((k mod ?p) div ?q) mod ?l = (k div ?q) mod ?l"
    proof -
      have "xss = take j' xss @ xss ! j' # drop (Suc j') xss"
        using j' by (simp add: id_take_nth_drop)
      then have "map length xss = map length (take j' xss) @ ?l # map length (drop (Suc j') xss)"
        by (metis list.simps(9) map_append)
      then have "?p = prod_list (map length (take j' xss)) * ?l * ?q"
        by (simp add: length_product_lists_prod)
      then obtain a where a: "?p = ?q * (?l * a)"
        by (metis mult.commute mult.left_commute)
      from p a have "0 < ?q" by (cases ?q) simp_all
      then have "(k mod (?q * (?l * a))) div ?q = (k div ?q) mod (?l * a)"
        by (rule mod_div_shift)
      moreover have "((k div ?q) mod (?l * a)) mod ?l = (k div ?q) mod ?l"
        by (simp add: mod_mod_cancel)
      ultimately show ?thesis using a by simp
    qed
    ultimately show ?thesis using Suc nth by simp
  qed
qed

lemma product_lists_empty_pool: "[] \<in> set xss \<Longrightarrow> product_lists xss = []"
  by (induction xss) auto

lemma get_angle_mesh_eq: "get_angle_mesh angle_list = product_lists angle_list"
  by (simp add: get_angle_mesh_def itertools_product_eq)

text \<open>
  Claim C2, as stated, fails when an angle list holds a value twice: the product goes by
  position, and the mesh of the single list \<open>[0, 0]\<close> is the tuple \<open>(0)\<close> twice.
\<close>

theorem get_angle_mesh_duplicates:
  "get_angle_mesh [[0, 0 :: int]] = [[0], [0]] \<and> \<not> distinct (get_angle_mesh [[0, 0 :: int]])"
  by (simp add: get_angle_mesh_eq)

text \<open>
  Claim C2, amended. For angle lists of lengths \<open>l\<^sub>0, \<dots>, l\<^sub>D\<^sub>-\<^sub>1\<close> the mesh has
  \<open>l\<^sub>0 * \<dots> * l\<^sub>D\<^sub>-\<^sub>1\<close> tuples, each of length \<open>D\<close>; the tuples are those that take
  their \<open>j\<close>-th component from the \<open>j\<close>-th list; no tuple occurs twice when no list
  holds a value twice; the order is row-major, the last dimension varying fastest: with
  \<open>q\<close> the product of the lengths after dimension \<open>j\<close>, the \<open>j\<close>-th component of the
  \<open>k\<close>-th tuple is the element of the \<open>j\<close>-th list at index \<open>(k div q) mod l\<^sub>j\<close>; the mesh
  is empty when a list is empty; and the lists \<open>[0, 90]\<close> and \<open>[0, 180]\<close> give
  \<open>(0, 0), (0, 180), (90, 0), (90, 180)\<close> in that order.
\<close>

theorem get_angle_mesh_cartesian_product:
  "length (get_angle_mesh angle_list) = prod_list (map length angle_list) \<and>
   (\<forall>t \<in> set (get_angle_mesh angle_list). length t = length angle_list) \<and>
   set (get_angle_mesh angle_list) = {t. list_all2 (\<lambda>x xs. x \<in> set xs) t angle_list} \<and>
   ((\<forall>xs \<in> set angle_list. distinct xs) \<longrightarrow> distinct (get_angle_mesh angle_list)) \<and>
   (\<forall>k j. k < length (get_angle_mesh angle_list) \<and> j < length angle_list \<longrightarrow>
      get_angle_mesh angle_list ! k ! j =
        angle_list ! j !
          ((k div prod_list (map length (drop (Suc j) angle_list))) mod length (angle_list ! j))) \<and>
   ([] \<in> set angle_list \<longrightarrow> get_angle_mesh angle_list = []) \<and>
   get_angle_mesh [[0, 90], [0, 180 :: int]] = [[0, 0], [0, 180], [90, 0], [90, 180]]"
proof -
  have "length (get_angle_mesh angle_list) = prod_list (map length angle_list)"
    by (simp add: get_angle_mesh_eq length_product_lists_prod)
  moreover have "\<forall>t \<in> set (get_angle_mesh angle_list). length t = length angle_list"
    by (simp add: get_angle_mesh_eq in_set_product_lists_length)
  moreover have "set (get_angle_mesh angle_list) =
      {t. list_all2 (\<lambda>x xs. x \<in> set xs) t angle_list}"
    by (simp add: get_angle_mesh_eq product_lists_set)
  moreover have "distinct (get_angle_mesh angle_list)" if "\<forall>xs \<in> set angle_list. distinct xs"
    using that by (simp add: get_angle_mesh_eq distinct_product_lists)
  moreover have "get_angle_mesh angle_list ! k ! j =
        angle_list ! j !
          ((k div prod_list (map length (drop (Suc j) angle_list))) mod length (angle_list ! j))"
    if "k < length (get_angle_mesh angle_list)" and "j < length angle_list" for k j
    using that by (simp add: get_angle_mesh_eq product_lists_row_major)
  moreover have "get_angle_mesh angle_list = []" if "[] \<in> set angle_list"
    using that by (simp add: get_angle_mesh_eq product_lists_empty_pool)
  moreover have "get_angle_mesh [[0, 90], [0, 180 :: int]] = [[0, 0], [0, 180], [90, 0], [90, 180]]"
    by (simp add: get_angle_mesh_eq)
  ultimately show ?thesis by blast
qed

theorem get_angle_mesh_cartesian_product_witness:
  "length (get_angle_mesh [[0, 90], [0, 180 :: int]]) = 4 \<and>
   distinct (get_angle_mesh [[0, 90], [0, 180 :: int]]) \<and>
   get_angle_mesh [[0, 90], [0, 180 :: int]] ! 2 ! 0 = 90 \<and>
   get_angle_mesh [[0, 90], [0, 180 :: int]] ! 2 ! 1 = 0 \<and>
   get_angle_mesh [[0, 90], [], [0, 180 :: int]] = []"
proof -
  note m = get_angle_mesh_cartesian_product [of "[[0, 90], [0, 180 :: int]]"]
  from m have "length (get_angle_mesh [[0, 90], [0, 180 :: int]]) = 4" by simp
  moreover from m have "distinct (get_angle_mesh [[0, 90], [0, 180 :: int]])" by simp
  moreover from m have "get_angle_mesh [[0, 90], [0, 180 :: int]] ! 2 ! 0 = 90" by simp
  moreover from m have "get_angle_mesh [[0, 90], [0, 180 :: int]] ! 2 ! 1 = 0" by simp
  moreover from get_angle_mesh_cartesian_product [of "[[0, 90], [], [0, 180 :: int]]"]
  have "get_angle_mesh [[0, 90], [], [0, 180 :: int]] = []" by simp
  ultimately show ?thesis by simp
qed

section \<open>The conformers\<close>

text \<open>
  Assigning to a key that the dictionary does not hold appends the entry; the lookup
  after an assignment is the updated map.
\<close>

lemma dict_setitem_fresh: "k \<notin> set (dict_keys d) \<Longrightarrow> dict_setitem k v d = d @ [(k, v)]"
  by (induction d) (auto simp add: dict_keys_def)

lemma map_of_dict_setitem: "map_of (dict_setitem k v d) = (map_of d)(k \<mapsto> v)"
  by (induction d) (auto simp add: fun_eq_iff)

text \<open>
  The loop leaves the handle in the state reached by setting every tuple in turn. The
  entry with index \<open>k + i\<close> is read off the handle after the first \<open>i + 1\<close> tuples have
  been set. On a dictionary whose keys are all below the first index the entries are
  appended in order; on any dictionary they are found under their index afterwards.
\<close>

lemma torsion_loop_conf:
  "fst (torsion_loop rdk chk items conf bookkeep) =
   foldl (\<lambda>c angs. SetAllTorsionsDeg rdk angs c) conf (map snd items)"
  by (induction items arbitrary: conf bookkeep) (auto simp add: Let_def)

lemma torsion_loop_append:
  assumes "\<forall>x \<in> set (dict_keys bookkeep). x < k"
  shows "snd (torsion_loop rdk chk (enumerate k mesh) conf bookkeep) =
     bookkeep @
     map (\<lambda>i. (k + i,
                bookkeep_entry rdk chk (mesh ! i)
                  (foldl (\<lambda>c angs. SetAllTorsionsDeg rdk angs c) conf (take (Suc i) mesh))))
       [0..<length mesh]"
  using assms
proof (induction mesh arbitrary: k conf bookkeep)
  case Nil
  then show ?case by simp
next
  case (Cons a mesh)
  let ?conf' = "SetAllTorsionsDeg rdk a conf"
  let ?e = "bookkeep_entry rdk chk a ?conf'"
  from Cons.prems have fresh: "k \<notin> set (dict_keys bookkeep)" by auto
  from Cons.prems have "\<forall>x \<in> set (dict_keys (bookkeep @ [(k, ?e)])). x < Suc k"
    by (auto simp add: dict_keys_def)
  from Cons.IH [OF this, of ?conf']
  have "snd (torsion_loop rdk chk (enumerate k (a # mesh)) conf bookkeep) =
        (bookkeep @ [(k, ?e)]) @
        map (\<lambda>i. (Suc k + i,
                bookkeep_entry rdk chk (mesh ! i)
                  (foldl (\<lambda>c angs. SetAllTorsionsDeg rdk angs c) ?conf' (take (Suc i) mesh))))
          [0..<length mesh]"
    by (simp add: dict_setitem_fresh [OF fresh] Let_def)
  then show ?case
    by (simp add: map_upt_Suc del: upt_Suc)
qed

lemma torsion_loop_lookup:
  "map_of (snd (torsion_loop rdk chk (enumerate k mesh) conf bookkeep)) i =
     (if k \<le> i \<and> i < k + length mesh
      then Some (bookkeep_entry rdk chk (mesh ! (i - k))
             (foldl (\<lambda>c angs. SetAllTorsionsDeg rdk angs c) conf (take (Suc (i - k)) mesh)))
      else map_of bookkeep i)"
proof (induction mesh arbitrary: k conf bookkeep)
  case Nil
  then show ?case by auto
next
  case (Cons a mesh)
  show ?case
  proof (cases "i = k")
    case True
    then show ?thesis
      using Cons.IH [of "Suc k" "SetAllTorsionsDeg rdk a conf"]
      by (simp add: map_of_dict_setitem Let_def)
  next
    case False
    show ?thesis
    proof (cases "k < i")
      case True
      then have "i - k = Suc (i - Suc k)" by simp
      with True False show ?thesis
        using Cons.IH [of "Suc k" "SetAllTorsionsDeg rdk a conf"]
        by (simp add: map_of_dict_setitem Let_def)
    next
      case False
      with \<open>i \<noteq> k\<close> show ?thesis
        using Cons.IH [of "Suc k" "SetAllTorsionsDeg rdk a conf"]
        by (simp add: map_of_dict_setitem Let_def)
    qed
  qed
qed

lemma conformers_store:
  "snd (conformers_by_change_torsions rdk conf angle_mesh [] torsions chk) =
     map (\<lambda>i. (i, bookkeep_entry rdk chk (angle_mesh ! i)
                  (foldl (\<lambda>c angs. SetAllTorsionsDeg rdk angs c) conf
                     (take (Suc i) angle_mesh))))
       [0..<length angle_mesh]"
  using torsion_loop_append [of "[]" 0 rdk chk angle_mesh conf]
  by (simp add: conformers_by_change_torsions_def dict_keys_def)

lemma conformers_lookup:
  "i < length angle_mesh \<Longrightarrow>
   dict_get (snd (conformers_by_change_torsions rdk conf angle_mesh bookkeep torsions chk)) i =
     Some (bookkeep_entry rdk chk (angle_mesh ! i)
             (foldl (\<lambda>c angs. SetAllTorsionsDeg rdk angs c) conf (take (Suc i) angle_mesh)))"
  using torsion_loop_lookup [of rdk chk 0 angle_mesh conf bookkeep i]
  by (simp add: conformers_by_change_torsions_def dict_get_def)

lemma conformers_conf:
  "fst (conformers_by_change_torsions rdk conf angle_mesh bookkeep torsions chk) =
     foldl (\<lambda>c angs. SetAllTorsionsDeg rdk angs c) conf angle_mesh"
  by (simp add: conformers_by_change_torsions_def torsion_loop_conf)

text \<open>
  Claim C1. On an empty dictionary, for every mesh, the function stores one entry per
  tuple of the mesh: the dictionary has as many entries as the mesh has tuples, its keys
  in insertion order are \<open>0, \<dots>, N - 1\<close>, the \<^verbatim>\<open>'angles'\<close> of its values in that order
  are the tuples of the mesh in their order, and the entry found under index \<open>i\<close> has the
  \<open>i\<close>-th tuple as its \<^verbatim>\<open>'angles'\<close>.
\<close>

theorem conformers_store_indexed:
  "(let bookkeep = snd (conformers_by_change_torsions rdk conf angle_mesh [] torsions chk)
    in length bookkeep = length angle_mesh \<and>
       dict_keys bookkeep = [0..<length angle_mesh] \<and>
       map angles (dict_values bookkeep) = angle_mesh \<and>
       map (\<lambda>i. map_option angles (dict_get bookkeep i)) [0..<length angle_mesh] =
         map Some angle_mesh)"
proof -
  let ?bk = "snd (conformers_by_change_torsions rdk conf angle_mesh [] torsions chk)"
  have "length ?bk = length angle_mesh"
    by (simp add: conformers_store)
  moreover have "dict_keys ?bk = [0..<length angle_mesh]"
    by (simp add: conformers_store dict_keys_def comp_def)
  moreover have "map angles (dict_values ?bk) = angle_mesh"
    by (simp add: conformers_store dict_values_def comp_def bookkeep_entry_def map_nth)
  moreover have "map (\<lambda>i. map_option angles (dict_get ?bk i)) [0..<length angle_mesh] =
         map Some angle_mesh"
  proof -
    have "map (\<lambda>i. map_option angles (dict_get ?bk i)) [0..<length angle_mesh] =
          map (\<lambda>i. Some (angle_mesh ! i)) [0..<length angle_mesh]"
      by (rule map_cong) (simp_all add: conformers_lookup bookkeep_entry_def)
    also have "\<dots> = map Some (map (\<lambda>i. angle_mesh ! i) [0..<length angle_mesh])"
      by (simp add: comp_def)
    finally show ?thesis by (simp add: map_nth)
  qed
  ultimately show ?thesis by (simp add: Let_def)
qed

theorem conformers_store_indexed_witness:
  "dict_keys (snd (conformers_by_change_torsions angles_conf [] [[0, 0], [0, 180], [90, 0 :: int]] []
      None False)) = [0, 1, 2] \<and>
   map angles (dict_values (snd (conformers_by_change_torsions angles_conf []
      [[0, 0], [0, 180], [90, 0 :: int]] [] None False))) = [[0, 0], [0, 180], [90, 0 :: int]]"
  using conformers_store_indexed [of angles_conf "[]" "[[0, 0], [0, 180], [90, 0 :: int]]" None False]
  by (simp add: Let_def)

text \<open>
  Claim C6. Without the on-the-fly check every entry written by the run has \<^verbatim>\<open>None\<close> as
  its \<^verbatim>\<open>'colliding_atoms'\<close>, never a boolean. With the check, the entry of index \<open>i\<close> holds
  the boolean that \<^verbatim>\<open>HasCollidingAtoms\<close> returns on the handle once the \<open>i\<close>-th tuple
  has been set. Both hold for the values of a dictionary that was empty, in order, and
  for the lookups \<open>0, \<dots>, N - 1\<close> in a dictionary that held anything before.
\<close>

theorem colliding_atoms_recorded:
  "map colliding_atoms
     (dict_values (snd (conformers_by_change_torsions rdk conf angle_mesh [] torsions False))) =
     replicate (length angle_mesh) None \<and>
   map colliding_atoms
     (dict_values (snd (conformers_by_change_torsions rdk conf angle_mesh [] torsions True))) =
     map (\<lambda>i. Some (HasCollidingAtoms rdk
                  (foldl (\<lambda>c angs. SetAllTorsionsDeg rdk angs c) conf
                     (take (Suc i) angle_mesh))))
       [0..<length angle_mesh] \<and>
   map (\<lambda>i. map_option colliding_atoms
          (dict_get (snd (conformers_by_change_torsions rdk conf angle_mesh bookkeep torsions
             False)) i))
     [0..<length angle_mesh] = replicate (length angle_mesh) (Some None) \<and>
   map (\<lambda>i. map_option colliding_atoms
          (dict_get (snd (conformers_by_change_torsions rdk conf angle_mesh bookkeep torsions
             True)) i))
     [0..<length angle_mesh] =
     map (\<lambda>i. Some (Some (HasCollidingAtoms rdk
                  (foldl (\<lambda>c angs. SetAllTorsionsDeg rdk angs c) conf
                     (take (Suc i) angle_mesh)))))
       [0..<length angle_mesh]"
proof -
  let ?n = "length angle_mesh"
  let ?st = "\<lambda>i. foldl (\<lambda>c angs. SetAllTorsionsDeg rdk angs c) conf (take (Suc i) angle_mesh)"
  let ?run = "\<lambda>bk chk. snd (conformers_by_change_torsions rdk conf angle_mesh bk torsions chk)"
  have "map colliding_atoms (dict_values (?run [] False)) = replicate ?n None"
    by (simp add: conformers_store dict_values_def comp_def bookkeep_entry_def
          map_replicate_const)
  moreover have "map colliding_atoms (dict_values (?run [] True)) =
      map (\<lambda>i. Some (HasCollidingAtoms rdk (?st i))) [0..<?n]"
    by (simp add: conformers_store dict_values_def comp_def bookkeep_entry_def)
  moreover have "map (\<lambda>i. map_option colliding_atoms (dict_get (?run bookkeep False) i)) [0..<?n] =
      replicate ?n (Some None)"
  proof -
    have "map (\<lambda>i. map_option colliding_atoms (dict_get (?run bookkeep False) i)) [0..<?n] =
          map (\<lambda>i. Some None) [0..<?n]"
      by (rule map_cong) (simp_all add: conformers_lookup bookkeep_entry_def)
    then show ?thesis by (simp add: map_replicate_const)
  qed
  moreover have "map (\<lambda>i. map_option colliding_atoms (dict_get (?run bookkeep True) i)) [0..<?n] =
      map (\<lambda>i. Some (Some (HasCollidingAtoms rdk (?st i)))) [0..<?n]"
    by (rule map_cong) (simp_all add: conformers_lookup bookkeep_entry_def)
  ultimately show ?thesis by blast
qed

theorem colliding_atoms_recorded_witness:
  "map colliding_atoms (dict_values (snd (conformers_by_change_torsions angles_conf []
      [[0, 0], [0, 180 :: int]] [] None False))) = [None, None] \<and>
   map colliding_atoms (dict_values (snd (conformers_by_change_torsions angles_conf []
      [[0, 0], [0, 180 :: int]] [] None True))) = [Some True, Some False]"
  using colliding_atoms_recorded [of angles_conf "[]" "[[0, 0], [0, 180 :: int]]" None "[]"]
  by (simp add: angles_conf_def)

text \<open>
  Claim C10. A negative step count at dimension \<open>i\<close> raises nothing and gives the empty
  angle list for that dimension; the mesh of the angle lists is then empty, the
  dictionary stays empty and the handle is not touched.
\<close>

theorem negative_step_count_empty:
  assumes "i < length samplings" and "samplings ! i = StepCount n" and "n < 0"
    and "length samplings \<le> length (default_angles samplings original_angles)"
  shows "\<exists>angle_list.
           get_separable_angle_list samplings original_angles = Inr angle_list \<and>
           length angle_list = length samplings \<and>
           angle_list ! i = [] \<and>
           get_angle_mesh angle_list = [] \<and>
           snd (conformers_by_change_torsions rdk conf (get_angle_mesh angle_list) []
                  torsions chk) = [] \<and>
           generate_conformers rdk conf samplings original_angles torsions chk =
             Inr (conf, [])"
proof -
  from assms(3) have "n \<noteq> 0" by simp
  from step_count_angles [OF assms(1,2) this assms(4)] assms(3) obtain angle_list where
    al: "get_separable_angle_list samplings original_angles = Inr angle_list"
      "length angle_list = length samplings"
      "angle_list ! i = []"
    by auto
  from al(2,3) assms(1) have "[] \<in> set angle_list"
    by (metis nth_mem)
  then have mesh: "get_angle_mesh angle_list = []"
    by (simp add: get_angle_mesh_eq product_lists_empty_pool)
  have run: "conformers_by_change_torsions rdk conf [] [] torsions chk = (conf, [])"
    by (simp add: conformers_by_change_torsions_def)
  from al mesh run show ?thesis
    by (simp add: generate_conformers_def)
qed

theorem negative_step_count_empty_witness:
  "\<exists>angle_list.
     get_separable_angle_list [StepCount 2, StepCount (- 3)] (Some [PyInt 10, PyInt 20]) = Inr angle_list \<and>
     angle_list ! 1 = [] \<and> get_angle_mesh angle_list = [] \<and>
     generate_conformers angles_conf [] [StepCount 2, StepCount (- 3)] (Some [PyInt 10, PyInt 20]) None True =
       Inr ([], [])"
  using negative_step_count_empty [of 1 "[StepCount 2, StepCount (- 3)]" "- 3" "Some [PyInt 10, PyInt 20]" angles_conf "[]" None True]
  by (auto simp add: default_angles_def)

lemma angles_conf_state:
  "as \<noteq> [] \<Longrightarrow> foldl (\<lambda>c angs. SetAllTorsionsDeg angles_conf angs c) conf as = last as"
  by (induction as arbitrary: conf) (auto simp add: angles_conf_def)

text \<open>
  Claim C9. The dictionary that the three functions produce is determined by the
  samplings, the original angles, the check flag and the behaviour of the handle. Two
  runs on the same samplings and original angles, with handles that answer
  \<^verbatim>\<open>GetPositions\<close> and \<^verbatim>\<open>HasCollidingAtoms\<close> alike after the same tuples have been set,
  end alike: both raise the same exception or both produce the same dictionary, with
  the same angles, coordinates and flags under the same indices in the same order. The
  handles may differ in their state and in how they are built, and the runs in their
  \<^verbatim>\<open>torsions\<close> argument. A run repeated on the same handle in the same state is the
  case of two equal handles.
\<close>

theorem generation_deterministic:
  fixes rdk1 :: "(py_num, 'c1, 'p) RDKitConf" and rdk2 :: "(py_num, 'c2, 'p) RDKitConf"
  assumes pos: "\<forall>as. as \<noteq> [] \<longrightarrow>
      GetPositions rdk1 (foldl (\<lambda>c angs. SetAllTorsionsDeg rdk1 angs c) conf1 as) =
      GetPositions rdk2 (foldl (\<lambda>c angs. SetAllTorsionsDeg rdk2 angs c) conf2 as)"
    and col: "\<forall>as. as \<noteq> [] \<longrightarrow>
      HasCollidingAtoms rdk1 (foldl (\<lambda>c angs. SetAllTorsionsDeg rdk1 angs c) conf1 as) =
      HasCollidingAtoms rdk2 (foldl (\<lambda>c angs. SetAllTorsionsDeg rdk2 angs c) conf2 as)"
  shows "map_sum id snd
           (generate_conformers rdk1 conf1 samplings original_angles torsions1 chk) =
         map_sum id snd
           (generate_conformers rdk2 conf2 samplings original_angles torsions2 chk)"
proof (cases "get_separable_angle_list samplings original_angles")
  case (Inl e)
  then show ?thesis by (simp add: generate_conformers_def)
next
  case (Inr angles_list)
  let ?mesh = "get_angle_mesh angles_list"
  have "bookkeep_entry rdk1 chk (?mesh ! i)
          (foldl (\<lambda>c angs. SetAllTorsionsDeg rdk1 angs c) conf1 (take (Suc i) ?mesh)) =
        bookkeep_entry rdk2 chk (?mesh ! i)
          (foldl (\<lambda>c angs. SetAllTorsionsDeg rdk2 angs c) conf2 (take (Suc i) ?mesh))"
    if "i < length ?mesh" for i
  proof -
    from that have "take (Suc i) ?mesh \<noteq> []" by auto
    with pos col show ?thesis by (simp add: bookkeep_entry_def)
  qed
  then have "snd (conformers_by_change_torsions rdk1 conf1 ?mesh [] torsions1 chk) =
             snd (conformers_by_change_torsions rdk2 conf2 ?mesh [] torsions2 chk)"
    by (simp add: conformers_store)
  with Inr show ?thesis by (simp add: generate_conformers_def)
qed

theorem generation_deterministic_witness:
  "map_sum id snd
     (generate_conformers angles_conf [] [StepCount 2, ExplicitOffsets [0, 90]] None None True) =
   map_sum id snd
     (generate_conformers angles_conf [PyInt 7, PyInt 7] [StepCount 2, ExplicitOffsets [0, 90]] None
        (Some [[0, 1, 2, 3]]) True)"
proof -
  have "\<forall>as. as \<noteq> [] \<longrightarrow>
      GetPositions angles_conf (foldl (\<lambda>c angs. SetAllTorsionsDeg angles_conf angs c) [] as) =
      GetPositions angles_conf (foldl (\<lambda>c angs. SetAllTorsionsDeg angles_conf angs c) [PyInt 7, PyInt 7] as)"
    by (simp add: angles_conf_state)
  moreover have "\<forall>as. as \<noteq> [] \<longrightarrow>
      HasCollidingAtoms angles_conf (foldl (\<lambda>c angs. SetAllTorsionsDeg angles_conf angs c) [] as) =
      HasCollidingAtoms angles_conf (foldl (\<lambda>c angs. SetAllTorsionsDeg angles_conf angs c) [PyInt 7, PyInt 7] as)"
    by (simp add: angles_conf_state)
  ultimately show ?thesis by (rule generation_deterministic)
qed

end
